theory Spec2Isabelle
  imports Main "HOL-Library.AList"
begin

section \<open>The adjacency mapping\<close>

text \<open>
  \<^verbatim>\<open>self._graph = defaultdict(list)\<close>: a dictionary from nodes to adjacency lists that
  keeps the insertion order of its keys.  It is modelled as an association list; a new key
  goes to the end, an existing key keeps its place.
\<close>

type_synonym 'a graph = "('a \<times> 'a list) list"

datatype py_error = ValueError

definition nodes :: "'a graph \<Rightarrow> 'a list" where
  "nodes g = map fst g"

definition node_count :: "'a graph \<Rightarrow> int" where
  "node_count g = int (length g)"

text \<open>The list stored under a key; the empty list that \<open>defaultdict\<close> would create when
  the key is absent.\<close>

definition adjacency :: "'a graph \<Rightarrow> 'a \<Rightarrow> 'a list" where
  "adjacency g k = (case map_of g k of None \<Rightarrow> [] | Some l \<Rightarrow> l)"

text \<open>\<^verbatim>\<open>self._graph[k]\<close>: reading an absent key registers it with a fresh empty list.
  The result is the mapping after the access and the list that was read.\<close>

definition getitem :: "'a graph \<Rightarrow> 'a \<Rightarrow> 'a graph \<times> 'a list" where
  "getitem g k = (if k \<in> set (nodes g) then (g, adjacency g k) else (g @ [(k, [])], []))"

text \<open>\<^verbatim>\<open>self._graph[k].append(v)\<close>: the access above, then the list is extended in place.\<close>

definition append_to :: "'a graph \<Rightarrow> 'a \<Rightarrow> 'a \<Rightarrow> 'a graph" where
  "append_to g k v = (case getitem g k of (g', l) \<Rightarrow> AList.update k (l @ [v]) g')"

definition add_node :: "'a graph \<Rightarrow> 'a \<Rightarrow> 'a graph" where
  "add_node g node = fst (getitem g node)"

section \<open>Queries of the base class\<close>

text \<open>\<^verbatim>\<open>isolated_nodes\<close>: the outer loop runs over the items, the inner \<open>for ... else\<close>
  over all adjacency lists.\<close>

definition isolated_nodes :: "'a graph \<Rightarrow> 'a list" where
  "isolated_nodes g =
     map fst (filter (\<lambda>(node, edges).
        length edges = 0 \<and> \<not> list_ex (\<lambda>edge. node \<in> set edge) (map snd g)) g)"

definition is_connected :: "'a graph \<Rightarrow> bool" where
  "is_connected g = (length (isolated_nodes g) = 0)"

text \<open>All nodes that occur in some adjacency list; the search is measured against them.\<close>

definition targets :: "'a graph \<Rightarrow> 'a set" where
  "targets g = (\<Union>l \<in> set (map snd g). set l)"

lemma adjacency_subset_targets:
  "set (adjacency g k) \<subseteq> targets g"
proof (cases "map_of g k")
  case None
  then show ?thesis by (simp add: adjacency_def)
next
  case (Some l)
  then have "(k, l) \<in> set g" by (rule map_of_SomeD)
  then have "l \<in> snd ` set g" by force
  with Some show ?thesis by (auto simp: adjacency_def targets_def)
qed

lemma finite_targets: "finite (targets g)"
  by (simp add: targets_def)

text \<open>\<^verbatim>\<open>depth_first_search(start_node, end_node, path=None)\<close>.  The loop over the adjacency
  list returns from its first iteration whose node is not in the path; a loop that ends
  without such a node falls off the end of the function, which returns \<open>None\<close>.\<close>

function depth_first_search ::
  "'a graph \<Rightarrow> 'a \<Rightarrow> 'a \<Rightarrow> 'a list option \<Rightarrow> 'a list option" where
  "depth_first_search g start_node end_node path =
     (if start_node = end_node
        then Some ((case path of None \<Rightarrow> [] | Some p \<Rightarrow> p) @ [start_node])
      else if start_node \<notin> set (nodes g) then None
      else (case find (\<lambda>node. node \<notin> set ((case path of None \<Rightarrow> [] | Some p \<Rightarrow> p) @ [start_node]))
                      (adjacency g start_node) of
              None \<Rightarrow> None
            | Some node \<Rightarrow>
                depth_first_search g node end_node
                  (Some ((case path of None \<Rightarrow> [] | Some p \<Rightarrow> p) @ [start_node]))))"
  by pat_completeness auto

termination
proof (relation "measure (\<lambda>(g, s, e, path).
          card (targets g - set ((case path of None \<Rightarrow> [] | Some p \<Rightarrow> p) @ [s])))")
  show "wf (measure (\<lambda>(g :: 'a graph, s, e :: 'a, path).
          card (targets g - set ((case path of None \<Rightarrow> [] | Some p \<Rightarrow> p) @ [s]))))"
    by simp
next
  fix g :: "'a graph" and start_node end_node :: 'a and path x2
  assume f: "find (\<lambda>node. node \<notin> set ((case path of None \<Rightarrow> [] | Some p \<Rightarrow> p) @ [start_node]))
                (adjacency g start_node) = Some x2"
  let ?p = "(case path of None \<Rightarrow> [] | Some p \<Rightarrow> p) @ [start_node]"
  from f have in_adj: "x2 \<in> set (adjacency g start_node)" and fresh: "x2 \<notin> set ?p"
    by (auto simp: find_Some_iff)
  from in_adj have "x2 \<in> targets g"
    using adjacency_subset_targets [of g start_node] by blast
  with fresh have "x2 \<in> targets g - set ?p" by simp
  then have "card (targets g - set ?p - {x2}) < card (targets g - set ?p)"
    by (intro card_Diff1_less) (simp_all add: finite_targets)
  moreover have "targets g - set (?p @ [x2]) = targets g - set ?p - {x2}"
    by auto
  ultimately have lt: "card (targets g - set (?p @ [x2])) < card (targets g - set ?p)"
    by (simp only:)
  show "((g, x2, end_node, Some ?p), (g, start_node, end_node, path))
      \<in> measure (\<lambda>(g, s, e, path).
          card (targets g - set ((case path of None \<Rightarrow> [] | Some p \<Rightarrow> p) @ [s])))"
    unfolding in_measure prod.case option.case by (rule lt)
qed

declare depth_first_search.simps [simp del]

text \<open>\<^verbatim>\<open>node_degree\<close> reads \<^verbatim>\<open>self._graph[node]\<close> and so registers an absent node; the
  result is the degree and the mapping after the call.\<close>

definition node_degree :: "'a graph \<Rightarrow> 'a \<Rightarrow> int \<times> 'a graph" where
  "node_degree g node =
     (case getitem g node of (g', l) \<Rightarrow> (int (length l) + int (count_list l node), g'))"

text \<open>\<^verbatim>\<open>min\<close> and \<^verbatim>\<open>max\<close> of an iterable raise \<open>ValueError\<close> when it is empty.\<close>

fun py_min :: "int list \<Rightarrow> py_error + int" where
  "py_min [] = Inl ValueError"
| "py_min (x # xs) = Inr (fold min xs x)"

fun py_max :: "int list \<Rightarrow> py_error + int" where
  "py_max [] = Inl ValueError"
| "py_max (x # xs) = Inr (fold max xs x)"

text \<open>\<^verbatim>\<open>map(self.node_degree, self._graph)\<close>: the degree of every key, in key order.  Every
  node asked for is a key, so the mapping is not changed by these calls (lemma
  \<open>node_degree_key_unchanged\<close> below).\<close>

definition degrees :: "'a graph \<Rightarrow> int list" where
  "degrees g = map (\<lambda>node. fst (node_degree g node)) (nodes g)"

definition delta :: "'a graph \<Rightarrow> py_error + int" where
  "delta g = py_min (degrees g)"

definition min_degree :: "'a graph \<Rightarrow> py_error + int" where
  "min_degree = delta"

definition Delta :: "'a graph \<Rightarrow> py_error + int" where
  "Delta g = py_max (degrees g)"

definition max_degree :: "'a graph \<Rightarrow> py_error + int" where
  "max_degree = Delta"

definition distance :: "'a graph \<Rightarrow> 'a \<Rightarrow> 'a \<Rightarrow> int" where
  "distance g start_node end_node =
     (case depth_first_search g start_node end_node None of
        None \<Rightarrow> - 1
      | Some dist \<Rightarrow> int (length dist) - 1)"

text \<open>\<^verbatim>\<open>itertools.combinations(xs, 2)\<close>: the pairs of positions \<open>i < j\<close>, in lexicographic
  order of the positions.\<close>

fun combinations2 :: "'a list \<Rightarrow> ('a \<times> 'a) list" where
  "combinations2 [] = []"
| "combinations2 (x # xs) = map (Pair x) xs @ combinations2 xs"

definition diameter :: "'a graph \<Rightarrow> py_error + int" where
  "diameter g = py_max (map (\<lambda>(a, b). distance g a b) (combinations2 (nodes g)))"

section \<open>The two graph classes\<close>

text \<open>
  \<^verbatim>\<open>UndirectedGraph.add_edge\<close> turns the pair into a set and pops its elements.  Which
  element of a two-element set is popped first is decided by the hash table of the Python
  runtime, not by this program, so it is a parameter of the model: \<open>pop_first a b\<close> holds
  when \<^verbatim>\<open>set((a, b)).pop()\<close> returns \<open>a\<close>.  It is only consulted for \<open>a \<noteq> b\<close>; for a pair
  \<open>(a, a)\<close> the set has one element and is empty after the first pop.
\<close>

type_synonym 'a set_pop = "'a \<Rightarrow> 'a \<Rightarrow> bool"

definition undirected_add_edge :: "'a set_pop \<Rightarrow> 'a graph \<Rightarrow> 'a \<times> 'a \<Rightarrow> 'a graph" where
  "undirected_add_edge pop_first g edge =
     (if fst edge = snd edge then append_to g (fst edge) (fst edge)
      else
        let node1 = (if pop_first (fst edge) (snd edge) then fst edge else snd edge);
            node2 = (if pop_first (fst edge) (snd edge) then snd edge else fst edge)
        in append_to (append_to g node1 node2) node2 node1)"

definition directed_add_edge :: "'a graph \<Rightarrow> 'a \<times> 'a \<Rightarrow> 'a graph" where
  "directed_add_edge g edge = append_to (add_node g (snd edge)) (fst edge) (snd edge)"

text \<open>\<^verbatim>\<open>Graph.__init__\<close>: the edges are added in order to the empty mapping.\<close>

definition UndirectedGraph :: "'a set_pop \<Rightarrow> ('a \<times> 'a) list \<Rightarrow> 'a graph" where
  "UndirectedGraph pop_first edges = fold (\<lambda>edge g. undirected_add_edge pop_first g edge) edges []"

definition DirectedGraph :: "('a \<times> 'a) list \<Rightarrow> 'a graph" where
  "DirectedGraph edges = fold (\<lambda>edge g. directed_add_edge g edge) edges []"

definition degree_sequence :: "'a graph \<Rightarrow> int list" where
  "degree_sequence g = rev (sort (degrees g))"

section \<open>The specification's wording of isolated nodes\<close>

text \<open>The nodes, in key order, whose adjacency list is empty and that occur in the adjacency
  list of no node.  This follows the specification, to be compared with \<open>isolated_nodes\<close>.\<close>

definition isolated_nodes_spec :: "'a graph \<Rightarrow> 'a list" where
  "isolated_nodes_spec g =
     filter (\<lambda>n. adjacency g n = [] \<and> (\<forall>m \<in> set (nodes g). n \<notin> set (adjacency g m)))
       (nodes g)"

section \<open>Sequences of calls on an undirected graph\<close>

text \<open>
  The calls of an \<^verbatim>\<open>UndirectedGraph\<close> that can write to the mapping: \<^verbatim>\<open>add_edge\<close>,
  \<^verbatim>\<open>add_node\<close>, and \<^verbatim>\<open>node_degree\<close>, which registers an absent node.  The other queries
  only read: \<^verbatim>\<open>depth_first_search\<close> tests membership before it indexes the mapping, and
  \<^verbatim>\<open>delta\<close>, \<^verbatim>\<open>Delta\<close> and \<^verbatim>\<open>degree_sequence\<close> ask for the degree of keys only.
\<close>

datatype 'a undirected_call = AddEdge "'a \<times> 'a" | AddNode 'a | NodeDegree 'a

fun apply_call :: "'a set_pop \<Rightarrow> 'a undirected_call \<Rightarrow> 'a graph \<Rightarrow> 'a graph" where
  "apply_call pop_first (AddEdge edge) g = undirected_add_edge pop_first g edge"
| "apply_call pop_first (AddNode node) g = add_node g node"
| "apply_call pop_first (NodeDegree node) g = snd (node_degree g node)"

definition symmetric_adjacency :: "'a graph \<Rightarrow> bool" where
  "symmetric_adjacency g =
     (\<forall>a b. count_list (adjacency g a) b = count_list (adjacency g b) a)"

section \<open>The search with a bound on its recursion depth\<close>

text \<open>
  The same search with a counter of the nested recursive calls that are still allowed; the
  outer \<open>None\<close> says that the search needed a deeper recursion than that.
\<close>

fun depth_first_search_fuel ::
  "nat \<Rightarrow> 'a graph \<Rightarrow> 'a \<Rightarrow> 'a \<Rightarrow> 'a list option \<Rightarrow> 'a list option option" where
  "depth_first_search_fuel fuel g start_node end_node path =
     (if start_node = end_node
        then Some (Some ((case path of None \<Rightarrow> [] | Some p \<Rightarrow> p) @ [start_node]))
      else if start_node \<notin> set (nodes g) then Some None
      else (case find (\<lambda>node. node \<notin> set ((case path of None \<Rightarrow> [] | Some p \<Rightarrow> p) @ [start_node]))
                      (adjacency g start_node) of
              None \<Rightarrow> Some None
            | Some node \<Rightarrow>
                (case fuel of
                   0 \<Rightarrow> None
                 | Suc fuel' \<Rightarrow>
                     depth_first_search_fuel fuel' g node end_node
                       (Some ((case path of None \<Rightarrow> [] | Some p \<Rightarrow> p) @ [start_node])))))"

text \<open>Every node that occurs in an adjacency list is a key of the mapping.\<close>

definition endpoints_registered :: "'a graph \<Rightarrow> bool" where
  "endpoints_registered g = (targets g \<subseteq> set (nodes g))"

section \<open>Facts about the mapping\<close>

lemma map_of_append_to:
  "map_of (append_to g k v) = (map_of g)(k \<mapsto> adjacency g k @ [v])"
proof (cases "k \<in> set (nodes g)")
  case True
  then show ?thesis
    by (simp add: append_to_def getitem_def AList.update_conv')
next
  case False
  then have "map_of g k = None"
    by (simp add: nodes_def map_of_eq_None_iff)
  then have "adjacency g k = []" and "map_of (g @ [(k, [])]) = (map_of g)(k \<mapsto> [])"
    by (auto simp: adjacency_def map_add_def fun_eq_iff split: option.splits)
  with False show ?thesis
    by (simp add: append_to_def getitem_def AList.update_conv')
qed

lemma adjacency_append_to:
  "adjacency (append_to g k v) n = (if n = k then adjacency g k @ [v] else adjacency g n)"
  by (simp add: adjacency_def [of "append_to g k v"] map_of_append_to) (simp add: adjacency_def)

lemma nodes_append_to:
  "nodes (append_to g k v) = (if k \<in> set (nodes g) then nodes g else nodes g @ [k])"
  by (auto simp: append_to_def getitem_def nodes_def AList.update_keys)

lemma undirected_add_edge_cases:
  "undirected_add_edge pop_first g (a, b) =
     (if a = b then append_to g a a
      else if pop_first a b then append_to (append_to g a b) b a
      else append_to (append_to g b a) a b)"
  by (simp add: undirected_add_edge_def Let_def)

lemma example_graph:
  "UndirectedGraph pop_first [(''a'', ''b''), (''a'', ''c''), (''c'', ''c'')] =
     (if pop_first ''a'' ''b''
      then [(''a'', [''b'', ''c'']), (''b'', [''a'']), (''c'', [''a'', ''c''])]
      else [(''b'', [''a'']), (''a'', [''b'', ''c'']), (''c'', [''a'', ''c''])])"
proof -
  have e1: "undirected_add_edge pop_first [] (''a'', ''b'') =
      (if pop_first ''a'' ''b'' then [(''a'', [''b'']), (''b'', [''a''])]
       else [(''b'', [''a'']), (''a'', [''b''])])"
    by (simp add: undirected_add_edge_cases append_to_def getitem_def nodes_def adjacency_def)
  have e2: "undirected_add_edge pop_first [(''a'', [''b'']), (''b'', [''a''])] (''a'', ''c'') =
      [(''a'', [''b'', ''c'']), (''b'', [''a'']), (''c'', [''a''])]"
    by (cases "pop_first ''a'' ''c''")
       (simp_all add: undirected_add_edge_cases append_to_def getitem_def nodes_def adjacency_def)
  have e2': "undirected_add_edge pop_first [(''b'', [''a'']), (''a'', [''b''])] (''a'', ''c'') =
      [(''b'', [''a'']), (''a'', [''b'', ''c'']), (''c'', [''a''])]"
    by (cases "pop_first ''a'' ''c''")
       (simp_all add: undirected_add_edge_cases append_to_def getitem_def nodes_def adjacency_def)
  have e3: "undirected_add_edge pop_first [(''a'', [''b'', ''c'']), (''b'', [''a'']), (''c'', [''a''])]
       (''c'', ''c'') = [(''a'', [''b'', ''c'']), (''b'', [''a'']), (''c'', [''a'', ''c''])]"
    by (simp add: undirected_add_edge_cases append_to_def getitem_def nodes_def adjacency_def)
  have e3': "undirected_add_edge pop_first [(''b'', [''a'']), (''a'', [''b'', ''c'']), (''c'', [''a''])]
       (''c'', ''c'') = [(''b'', [''a'']), (''a'', [''b'', ''c'']), (''c'', [''a'', ''c''])]"
    by (simp add: undirected_add_edge_cases append_to_def getitem_def nodes_def adjacency_def)
  show ?thesis
    by (cases "pop_first ''a'' ''b''") (simp_all add: UndirectedGraph_def e1 e2 e2' e3 e3')
qed

lemma adjacency_absent: "k \<notin> set (nodes g) \<Longrightarrow> adjacency g k = []"
  by (simp add: adjacency_def nodes_def map_of_eq_None_iff [THEN iffD2])

lemma getitem_snd: "snd (getitem g k) = adjacency g k"
  by (simp add: getitem_def adjacency_absent)

lemma nodes_add_node:
  "nodes (add_node g k) = (if k \<in> set (nodes g) then nodes g else nodes g @ [k])"
  by (simp add: add_node_def getitem_def nodes_def)

lemma adjacency_add_node: "adjacency (add_node g k) n = adjacency g n"
proof (cases "k \<in> set (nodes g)")
  case True
  then show ?thesis by (simp add: add_node_def getitem_def)
next
  case False
  then have "map_of g k = None"
    by (simp add: nodes_def map_of_eq_None_iff)
  then have "map_of (g @ [(k, [])]) n = (if n = k then Some [] else map_of g n)"
    by (auto simp: map_add_def split: option.splits)
  with False \<open>map_of g k = None\<close> show ?thesis
    by (simp add: add_node_def getitem_def adjacency_def)
qed

lemma node_degree_value:
  "fst (node_degree g n) = int (length (adjacency g n)) + int (count_list (adjacency g n) n)"
  by (simp add: node_degree_def getitem_def adjacency_absent)

lemma node_degree_state: "snd (node_degree g n) = add_node g n"
  by (simp add: node_degree_def add_node_def split: prod.splits)

lemma node_degree_key_unchanged: "n \<in> set (nodes g) \<Longrightarrow> snd (node_degree g n) = g"
  by (simp add: node_degree_def getitem_def)

lemma adjacency_directed_add_edge:
  "adjacency (directed_add_edge g (A, B)) n =
     (if n = A then adjacency g A @ [B] else adjacency g n)"
  by (simp add: directed_add_edge_def adjacency_append_to adjacency_add_node)

lemma nodes_directed_add_edge:
  "set (nodes (directed_add_edge g (A, B))) = insert A (insert B (set (nodes g)))"
  by (auto simp: directed_add_edge_def nodes_append_to nodes_add_node)

lemma adjacency_item:
  assumes "distinct (nodes g)" and "(n, l) \<in> set g"
  shows "adjacency g n = l"
  using assms by (simp add: adjacency_def nodes_def)

lemma adjacency_member:
  assumes "n \<in> set (adjacency g m)"
  obtains l where "(m, l) \<in> set g" and "n \<in> set l"
proof (cases "map_of g m")
  case None
  with assms show ?thesis by (simp add: adjacency_def)
next
  case (Some l)
  then have "(m, l) \<in> set g" by (rule map_of_SomeD)
  moreover from Some assms have "n \<in> set l" by (simp add: adjacency_def)
  ultimately show ?thesis by (rule that)
qed

lemma search_result_shape:
  "depth_first_search g s e path = Some p \<Longrightarrow>
     (\<exists>q. p = (case path of None \<Rightarrow> [] | Some r \<Rightarrow> r) @ s # q) \<and> last p = e"
proof (induction g s e path rule: depth_first_search.induct)
  case (1 g s e path)
  let ?p = "(case path of None \<Rightarrow> [] | Some r \<Rightarrow> r) @ [s]"
  show ?case
  proof (cases "s = e")
    case True
    with "1.prems" have "p = (case path of None \<Rightarrow> [] | Some r \<Rightarrow> r) @ [e]"
      by (simp add: depth_first_search.simps [of g e e path])
    with True show ?thesis by simp
  next
    case False
    with "1.prems" obtain n where
      key: "s \<in> set (nodes g)" and
      f: "find (\<lambda>node. node \<notin> set ?p) (adjacency g s) = Some n" and
      rec: "depth_first_search g n e (Some ?p) = Some p"
      by (auto simp: depth_first_search.simps [of g s e path] split: if_splits option.splits)
    from "1.IH" [OF False _ f rec] key
    have "(\<exists>q. p = ?p @ n # q) \<and> last p = e" by simp
    then show ?thesis by auto
  qed
qed

lemma adjacency_undirected_add_edge:
  "adjacency (undirected_add_edge pop_first g (a, b)) n =
     (if a = b then (if n = a then adjacency g a @ [a] else adjacency g n)
      else if n = a then adjacency g a @ [b]
      else if n = b then adjacency g b @ [a]
      else adjacency g n)"
  by (simp add: undirected_add_edge_cases adjacency_append_to)

lemma symmetric_adjacency_empty: "symmetric_adjacency []"
  by (simp add: symmetric_adjacency_def adjacency_def)

lemma symmetric_adjacency_add_edge:
  assumes "symmetric_adjacency g"
  shows "symmetric_adjacency (undirected_add_edge pop_first g edge)"
proof -
  obtain a b where edge: "edge = (a, b)" by (cases edge)
  from assms have sym: "count_list (adjacency g x) y = count_list (adjacency g y) x" for x y
    by (simp add: symmetric_adjacency_def)
  show ?thesis
    unfolding symmetric_adjacency_def edge
    by (intro allI) (simp add: adjacency_undirected_add_edge sym)
qed

lemma symmetric_adjacency_add_node:
  "symmetric_adjacency g \<Longrightarrow> symmetric_adjacency (add_node g n)"
  by (simp add: symmetric_adjacency_def adjacency_add_node)

lemma symmetric_adjacency_call:
  "symmetric_adjacency g \<Longrightarrow> symmetric_adjacency (apply_call pop_first c g)"
  by (cases c)
     (simp_all add: symmetric_adjacency_add_edge symmetric_adjacency_add_node node_degree_state)

lemma symmetric_adjacency_calls:
  "symmetric_adjacency g \<Longrightarrow> symmetric_adjacency (fold (apply_call pop_first) calls g)"
  by (induction calls arbitrary: g) (simp_all add: symmetric_adjacency_call)

lemma symmetric_adjacency_UndirectedGraph:
  "symmetric_adjacency (UndirectedGraph pop_first edges)"
proof -
  have "symmetric_adjacency (fold (\<lambda>edge g. undirected_add_edge pop_first g edge) edges g)"
    if "symmetric_adjacency g" for g
    using that by (induction edges arbitrary: g) (simp_all add: symmetric_adjacency_add_edge)
  then show ?thesis
    by (simp add: UndirectedGraph_def symmetric_adjacency_empty)
qed

declare depth_first_search_fuel.simps [simp del]

lemma search_within_fuel:
  assumes "finite U" and "targets g \<subseteq> U"
    and "card (U - set ((case path of None \<Rightarrow> [] | Some p \<Rightarrow> p) @ [s])) \<le> fuel"
  shows "depth_first_search_fuel fuel g s e path = Some (depth_first_search g s e path)"
  using assms(2,3)
proof (induction g s e path arbitrary: fuel rule: depth_first_search.induct)
  case (1 g s e path)
  let ?p = "(case path of None \<Rightarrow> [] | Some p \<Rightarrow> p) @ [s]"
  show ?case
  proof (cases "s = e \<or> s \<notin> set (nodes g)
         \<or> find (\<lambda>node. node \<notin> set ?p) (adjacency g s) = None")
    case True
    then show ?thesis
      by (auto simp: depth_first_search.simps [of g s e path]
          depth_first_search_fuel.simps [of fuel g s e path])
  next
    case False
    then obtain n where ne: "s \<noteq> e" and key: "s \<in> set (nodes g)"
      and f: "find (\<lambda>node. node \<notin> set ?p) (adjacency g s) = Some n"
      by auto
    from f have "n \<in> set (adjacency g s)" and fresh: "n \<notin> set ?p"
      by (auto simp: find_Some_iff)
    with "1.prems"(1) have "n \<in> U - set ?p"
      using adjacency_subset_targets [of g s] by blast
    moreover have fin: "finite (U - set ?p)"
      using assms(1) by simp
    ultimately have "card (U - set ?p - {n}) < card (U - set ?p)"
      by (intro card_Diff1_less)
    moreover have "U - set (?p @ [n]) = U - set ?p - {n}"
      by auto
    ultimately have "card (U - set (?p @ [n])) < fuel"
      using "1.prems"(2) by (simp only:)
    then obtain fuel' where fuel: "fuel = Suc fuel'"
      and le: "card (U - set (?p @ [n])) \<le> fuel'"
      by (cases fuel) auto
    from le have "card (U - set ((case Some ?p of None \<Rightarrow> [] | Some p \<Rightarrow> p) @ [n])) \<le> fuel'"
      by (simp only: option.case)
    with "1.IH" [OF ne _ f "1.prems"(1), of fuel'] key
    have "depth_first_search_fuel fuel' g n e (Some ?p) = Some (depth_first_search g n e (Some ?p))"
      by simp
    moreover have "depth_first_search_fuel fuel g s e path
        = depth_first_search_fuel fuel' g n e (Some ?p)"
      using ne key f fuel by (subst depth_first_search_fuel.simps) simp
    moreover have "depth_first_search g s e path = depth_first_search g n e (Some ?p)"
      using ne key f by (subst depth_first_search.simps) simp
    ultimately show ?thesis by (simp only:)
  qed
qed

lemma search_result_distinct:
  assumes "depth_first_search g s e path = Some p"
    and "distinct ((case path of None \<Rightarrow> [] | Some r \<Rightarrow> r) @ [s])"
  shows "distinct p"
  using assms
proof (induction g s e path rule: depth_first_search.induct)
  case (1 g s e path)
  let ?p = "(case path of None \<Rightarrow> [] | Some r \<Rightarrow> r) @ [s]"
  show ?case
  proof (cases "s = e")
    case True
    with "1.prems" show ?thesis
      by (simp add: depth_first_search.simps [of g e e path])
  next
    case False
    with "1.prems" obtain n where
      key: "s \<in> set (nodes g)" and
      f: "find (\<lambda>node. node \<notin> set ?p) (adjacency g s) = Some n" and
      rec: "depth_first_search g n e (Some ?p) = Some p"
      by (auto simp: depth_first_search.simps [of g s e path] split: if_splits option.splits)
    from f have "n \<notin> set ?p" by (auto simp: find_Some_iff)
    with "1.prems"(2) have "distinct (?p @ [n])"
      by (simp only: distinct_append) auto
    then have "distinct ((case Some ?p of None \<Rightarrow> [] | Some r \<Rightarrow> r) @ [n])"
      by (simp only: option.case)
    with "1.IH" [OF False _ f rec] key show ?thesis by simp
  qed
qed

lemma append_to_Nil: "append_to [] k v = [(k, [v])]"
  by (simp add: append_to_def getitem_def nodes_def)

lemma append_to_Cons:
  "append_to ((k', l) # g) k v =
     (if k' = k then (k, l @ [v]) # g else (k', l) # append_to g k v)"
  by (simp add: append_to_def getitem_def nodes_def adjacency_def)

lemma append_to_commute:
  assumes "a \<noteq> b" and "a \<in> set (nodes g) \<or> b \<in> set (nodes g)"
  shows "append_to (append_to g a x) b y = append_to (append_to g b y) a x"
  using assms(2)
proof (induction g)
  case Nil
  then show ?case by (simp add: nodes_def)
next
  case (Cons kv g)
  obtain k l where kv: "kv = (k, l)" by (cases kv)
  show ?case
  proof (cases "k = a \<or> k = b")
    case True
    with assms(1) show ?thesis
      by (auto simp: kv append_to_Cons)
  next
    case False
    with Cons.prems have "a \<in> set (nodes g) \<or> b \<in> set (nodes g)"
      by (auto simp: kv nodes_def)
    with Cons.IH False show ?thesis
      by (simp add: kv append_to_Cons)
  qed
qed

lemma targets_append_to: "targets (append_to g k v) = insert v (targets g)"
proof (induction g)
  case Nil
  show ?case by (simp add: append_to_Nil targets_def)
next
  case (Cons kv g)
  obtain k' l where kv: "kv = (k', l)" by (cases kv)
  have step: "targets (p # h) = set (snd p) \<union> targets h" for p :: "'a \<times> 'a list" and h
    by (simp add: targets_def)
  show ?case
    using Cons.IH by (auto simp: kv append_to_Cons step)
qed

lemma targets_add_node: "targets (add_node g k) = targets g"
  by (simp add: add_node_def getitem_def targets_def)

lemma nodes_undirected_add_edge:
  "set (nodes (undirected_add_edge pop_first g (a, b))) = insert a (insert b (set (nodes g)))"
  by (auto simp: undirected_add_edge_cases nodes_append_to)

lemma targets_undirected_add_edge:
  "targets (undirected_add_edge pop_first g (a, b)) = insert a (insert b (targets g))"
  by (auto simp: undirected_add_edge_cases targets_append_to)

lemma targets_directed_add_edge:
  "targets (directed_add_edge g (a, b)) = insert b (targets g)"
  by (simp add: directed_add_edge_def targets_append_to targets_add_node)

lemma endpoints_registered_undirected_add_edge:
  assumes "endpoints_registered g"
  shows "endpoints_registered (undirected_add_edge pop_first g edge)"
proof -
  obtain a b where edge: "edge = (a, b)" by (cases edge)
  from assms show ?thesis
    unfolding endpoints_registered_def edge targets_undirected_add_edge
      nodes_undirected_add_edge
    by auto
qed

lemma endpoints_registered_directed_add_edge:
  assumes "endpoints_registered g"
  shows "endpoints_registered (directed_add_edge g edge)"
proof -
  obtain a b where edge: "edge = (a, b)" by (cases edge)
  from assms show ?thesis
    unfolding endpoints_registered_def edge targets_directed_add_edge
      nodes_directed_add_edge
    by auto
qed

lemma endpoints_registered_add_node:
  "endpoints_registered g \<Longrightarrow> endpoints_registered (add_node g k)"
  by (auto simp: endpoints_registered_def targets_add_node nodes_add_node)

lemma endpoints_registered_UndirectedGraph:
  "endpoints_registered (UndirectedGraph pop_first edges)"
proof -
  have "endpoints_registered (fold (\<lambda>edge g. undirected_add_edge pop_first g edge) edges g)"
    if "endpoints_registered g" for g
    using that
    by (induction edges arbitrary: g) (simp_all add: endpoints_registered_undirected_add_edge)
  then show ?thesis
    by (simp add: UndirectedGraph_def endpoints_registered_def targets_def)
qed

lemma endpoints_registered_DirectedGraph:
  "endpoints_registered (DirectedGraph edges)"
proof -
  have "endpoints_registered (fold (\<lambda>edge g. directed_add_edge g edge) edges g)"
    if "endpoints_registered g" for g
    using that
    by (induction edges arbitrary: g) (simp_all add: endpoints_registered_directed_add_edge)
  then show ?thesis
    by (simp add: DirectedGraph_def endpoints_registered_def targets_def)
qed

text \<open>The keys stay distinct, as the keys of a dictionary are.\<close>

lemma distinct_nodes_append_to:
  "distinct (nodes g) \<Longrightarrow> distinct (nodes (append_to g k v))"
  by (simp add: nodes_append_to)

lemma distinct_nodes_add_node:
  "distinct (nodes g) \<Longrightarrow> distinct (nodes (add_node g k))"
  by (simp add: nodes_add_node)

lemma distinct_nodes_undirected_add_edge:
  "distinct (nodes g) \<Longrightarrow> distinct (nodes (undirected_add_edge pop_first g edge))"
  by (cases edge) (simp add: undirected_add_edge_cases distinct_nodes_append_to)

lemma distinct_nodes_directed_add_edge:
  "distinct (nodes g) \<Longrightarrow> distinct (nodes (directed_add_edge g edge))"
  by (simp add: directed_add_edge_def distinct_nodes_append_to distinct_nodes_add_node)

lemma distinct_nodes_UndirectedGraph: "distinct (nodes (UndirectedGraph pop_first edges))"
proof -
  have "distinct (nodes (fold (\<lambda>edge g. undirected_add_edge pop_first g edge) edges g))"
    if "distinct (nodes g)" for g
    using that
    by (induction edges arbitrary: g) (simp_all add: distinct_nodes_undirected_add_edge)
  then show ?thesis
    by (simp add: UndirectedGraph_def nodes_def)
qed

lemma distinct_nodes_DirectedGraph: "distinct (nodes (DirectedGraph edges))"
proof -
  have "distinct (nodes (fold (\<lambda>edge g. directed_add_edge g edge) edges g))"
    if "distinct (nodes g)" for g
    using that
    by (induction edges arbitrary: g) (simp_all add: distinct_nodes_directed_add_edge)
  then show ?thesis
    by (simp add: DirectedGraph_def nodes_def)
qed

section \<open>The documented example\<close>

text \<open>
  Claim C1.  The undirected graph built from the edges \<open>('a','b')\<close>, \<open>('a','c')\<close>, \<open>('c','c')\<close>
  has three nodes, node \<open>'c'\<close> has degree 3, the search from \<open>'b'\<close> to \<open>'c'\<close> returns the
  path \<open>['b','a','c']\<close>, the distance from \<open>'a'\<close> to \<open>'b'\<close> is 1 and the diameter is 2.  This
  holds whichever element the runtime pops first from each two-element set.
\<close>

theorem example_undirected_graph:
  fixes pop_first :: "string set_pop"
  defines "G \<equiv> UndirectedGraph pop_first [(''a'', ''b''), (''a'', ''c''), (''c'', ''c'')]"
  shows "node_count G = 3
       \<and> fst (node_degree G ''c'') = 3
       \<and> depth_first_search G ''b'' ''c'' None = Some [''b'', ''a'', ''c'']
       \<and> distance G ''a'' ''b'' = 1
       \<and> diameter G = Inr 2"
proof (cases "pop_first ''a'' ''b''")
  case True
  then have G: "G = [(''a'', [''b'', ''c'']), (''b'', [''a'']), (''c'', [''a'', ''c''])]"
    by (simp add: G_def example_graph)
  show ?thesis unfolding G
    by (simp add: node_count_def node_degree_def getitem_def nodes_def adjacency_def
        depth_first_search.simps distance_def diameter_def)
next
  case False
  then have G: "G = [(''b'', [''a'']), (''a'', [''b'', ''c'']), (''c'', [''a'', ''c''])]"
    by (simp add: G_def example_graph)
  show ?thesis unfolding G
    by (simp add: node_count_def node_degree_def getitem_def nodes_def adjacency_def
        depth_first_search.simps distance_def diameter_def)
qed

section \<open>A start node that is not in the graph\<close>

text \<open>
  The claim C2 as worded (an absent start node gives the no-path result and distance \<open>-1\<close> for
  every end node, the start node itself included) fails: the test \<^verbatim>\<open>start_node == end_node\<close>
  comes before the test \<^verbatim>\<open>start_node not in self._graph\<close>, so on the empty graph the search
  from \<open>'x'\<close> to \<open>'x'\<close> returns \<open>['x']\<close> and the distance is 0.
\<close>

theorem search_absent_start_same_end:
  "''x'' \<notin> set (nodes ([] :: string graph))
   \<and> depth_first_search ([] :: string graph) ''x'' ''x'' None = Some [''x'']
   \<and> depth_first_search ([] :: string graph) ''x'' ''x'' None \<noteq> None
   \<and> distance ([] :: string graph) ''x'' ''x'' = 0
   \<and> distance ([] :: string graph) ''x'' ''x'' \<noteq> - 1"
  by (simp add: nodes_def distance_def depth_first_search.simps)

text \<open>
  Claim C2, amended.  If the start node is not a key of the mapping and the end node differs
  from the start node, the search returns the no-path result and the distance is \<open>-1\<close>.
\<close>

theorem search_absent_start:
  assumes "start_node \<notin> set (nodes g)" and "start_node \<noteq> end_node"
  shows "depth_first_search g start_node end_node None = None
       \<and> distance g start_node end_node = - 1"
  using assms by (simp add: distance_def depth_first_search.simps)

theorem search_absent_start_witness:
  "''z'' \<notin> set (nodes [(''a'', [''b'']), (''b'', [])]) \<and> ''z'' \<noteq> ''a''
   \<and> depth_first_search [(''a'', [''b'']), (''b'', [])] ''z'' ''a'' None = None
   \<and> distance [(''a'', [''b'']), (''b'', [])] ''z'' ''a'' = - 1"
  using search_absent_start [of "''z''" "[(''a'', [''b'']), (''b'', [])]" "''a''"]
  by (simp add: nodes_def)

section \<open>Self-loops in an undirected graph\<close>

text \<open>
  Claim C4.  For every undirected graph and node \<open>X\<close>, \<^verbatim>\<open>add_edge((X, X))\<close> makes the adjacency
  list of \<open>X\<close> one entry longer and raises \<^verbatim>\<open>node_degree(X)\<close> by two.
\<close>

theorem self_loop_degree:
  "length (adjacency (undirected_add_edge pop_first g (X, X)) X) = length (adjacency g X) + 1
   \<and> fst (node_degree (undirected_add_edge pop_first g (X, X)) X) = fst (node_degree g X) + 2"
  by (simp add: undirected_add_edge_cases adjacency_append_to node_degree_value)

section \<open>Edges of a directed graph\<close>

text \<open>
  Claim C5.  In a directed graph, \<^verbatim>\<open>add_edge((A, B))\<close> with \<open>A \<noteq> B\<close> appends \<open>B\<close> to the
  adjacency list of \<open>A\<close>, makes \<open>B\<close> a key, and leaves the adjacency list of \<open>B\<close> as it was.
  The graph \<^verbatim>\<open>DirectedGraph([('a','b')])\<close> has the nodes \<open>'a'\<close> and \<open>'b'\<close>, the adjacency
  list of \<open>'b'\<close> is empty, and the distance from \<open>'b'\<close> to \<open>'a'\<close> is \<open>-1\<close>.
\<close>

theorem directed_add_edge_asymmetric:
  "(A \<noteq> B \<longrightarrow>
      adjacency (directed_add_edge g (A, B)) A = adjacency g A @ [B]
      \<and> B \<in> set (nodes (directed_add_edge g (A, B)))
      \<and> adjacency (directed_add_edge g (A, B)) B = adjacency g B)
   \<and> ''a'' \<in> set (nodes (DirectedGraph [(''a'', ''b'')]))
   \<and> ''b'' \<in> set (nodes (DirectedGraph [(''a'', ''b'')]))
   \<and> adjacency (DirectedGraph [(''a'', ''b'')]) ''b'' = []
   \<and> distance (DirectedGraph [(''a'', ''b'')]) ''b'' ''a'' = - 1"
proof -
  have G: "DirectedGraph [(''a'', ''b'')] = [(''b'', []), (''a'', [''b''])]"
    by (simp add: DirectedGraph_def directed_add_edge_def add_node_def append_to_def getitem_def
        nodes_def adjacency_def)
  have "''a'' \<in> set (nodes (DirectedGraph [(''a'', ''b'')]))
   \<and> ''b'' \<in> set (nodes (DirectedGraph [(''a'', ''b'')]))
   \<and> adjacency (DirectedGraph [(''a'', ''b'')]) ''b'' = []
   \<and> distance (DirectedGraph [(''a'', ''b'')]) ''b'' ''a'' = - 1"
    unfolding G by (simp add: nodes_def adjacency_def distance_def depth_first_search.simps)
  then show ?thesis
    by (simp add: adjacency_directed_add_edge nodes_directed_add_edge)
qed

theorem directed_add_edge_asymmetric_witness:
  "''a'' \<noteq> ''b''
   \<and> adjacency (directed_add_edge [(''b'', [''c''])] (''a'', ''b'')) ''a'' = [''b'']
   \<and> ''b'' \<in> set (nodes (directed_add_edge [(''b'', [''c''])] (''a'', ''b'')))
   \<and> adjacency (directed_add_edge [(''b'', [''c''])] (''a'', ''b'')) ''b'' = [''c'']"
  using directed_add_edge_asymmetric [of "''a''" "''b''" "[(''b'', [''c''])]"]
  by (simp add: adjacency_def)

section \<open>Distance\<close>

text \<open>
  Claim C6.  \<^verbatim>\<open>distance(start, end)\<close> is one less than the length of the node sequence that
  \<^verbatim>\<open>depth_first_search(start, end)\<close> returns (a sequence that is never empty), it is \<open>-1\<close>
  when the search returns the no-path result, and \<^verbatim>\<open>distance(X, X)\<close> is 0 for every node
  \<open>X\<close> of the graph.
\<close>

theorem distance_is_path_length:
  "(depth_first_search g s e None = Some p \<longrightarrow>
      p \<noteq> [] \<and> distance g s e = int (length p) - 1)
   \<and> (depth_first_search g s e None = None \<longrightarrow> distance g s e = - 1)
   \<and> (X \<in> set (nodes g) \<longrightarrow> distance g X X = 0)"
proof -
  have "p \<noteq> []" if "depth_first_search g s e None = Some p"
    using search_result_shape [OF that] by auto
  moreover have "distance g X X = 0"
    by (simp add: distance_def depth_first_search.simps [of g X X])
  ultimately show ?thesis
    by (simp add: distance_def)
qed

theorem distance_is_path_length_witness:
  "depth_first_search [(''a'', [''b'']), (''b'', [''a''])] ''a'' ''b'' None = Some [''a'', ''b'']
   \<and> distance [(''a'', [''b'']), (''b'', [''a''])] ''a'' ''b'' = 1
   \<and> depth_first_search [(''a'', [''b'']), (''b'', [''a''])] ''a'' ''c'' None = None
   \<and> distance [(''a'', [''b'']), (''b'', [''a''])] ''a'' ''c'' = - 1
   \<and> ''a'' \<in> set (nodes [(''a'', [''b'']), (''b'', [''a''])])
   \<and> distance [(''a'', [''b'']), (''b'', [''a''])] ''a'' ''a'' = 0"
proof -
  let ?g = "[(''a'', [''b'']), (''b'', [''a''])]"
  have s1: "depth_first_search ?g ''a'' ''b'' None = Some [''a'', ''b'']"
    by (simp add: depth_first_search.simps nodes_def adjacency_def)
  have s2: "depth_first_search ?g ''a'' ''c'' None = None"
    by (simp add: depth_first_search.simps nodes_def adjacency_def)
  have k: "''a'' \<in> set (nodes ?g)"
    by (simp add: nodes_def)
  show ?thesis
    using distance_is_path_length [of ?g "''a''" "''b''" "[''a'', ''b'']" "''a''"]
      distance_is_path_length [of ?g "''a''" "''c''" "[]" "''a''"] s1 s2 k
    by simp
qed

section \<open>Smallest and largest degree\<close>

text \<open>
  Claim C7.  \<^verbatim>\<open>delta()\<close> and its alias \<^verbatim>\<open>min_degree()\<close> return the minimum, \<^verbatim>\<open>Delta()\<close> and
  its alias \<^verbatim>\<open>max_degree()\<close> the maximum, of \<^verbatim>\<open>node_degree\<close> over all nodes; on a graph
  without nodes each of them fails with an error instead of returning a value.
\<close>

theorem degree_extremes:
  "(nodes g = [] \<longrightarrow>
      delta g = Inl ValueError \<and> min_degree g = Inl ValueError
      \<and> Delta g = Inl ValueError \<and> max_degree g = Inl ValueError)
   \<and> (nodes g \<noteq> [] \<longrightarrow>
      delta g = Inr (Min ((\<lambda>n. fst (node_degree g n)) ` set (nodes g)))
      \<and> min_degree g = delta g
      \<and> Delta g = Inr (Max ((\<lambda>n. fst (node_degree g n)) ` set (nodes g)))
      \<and> max_degree g = Delta g)"
proof (cases "nodes g")
  case Nil
  then show ?thesis
    by (simp add: delta_def Delta_def min_degree_def max_degree_def degrees_def)
next
  case (Cons n ns)
  let ?d = "\<lambda>n. fst (node_degree g n)"
  have "fold min (map ?d ns) (?d n) = Min (set (map ?d (n # ns)))"
    by (simp only: list.map Min.set_eq_fold)
  moreover have "fold max (map ?d ns) (?d n) = Max (set (map ?d (n # ns)))"
    by (simp only: list.map Max.set_eq_fold)
  ultimately show ?thesis using Cons
    by (simp add: delta_def Delta_def min_degree_def max_degree_def degrees_def)
qed

theorem degree_extremes_witness:
  "nodes ([] :: string graph) = [] \<and> delta ([] :: string graph) = Inl ValueError
   \<and> Delta ([] :: string graph) = Inl ValueError
   \<and> nodes [(''a'', [''b'', ''a'']), (''b'', [''a''])] \<noteq> []
   \<and> delta [(''a'', [''b'', ''a'']), (''b'', [''a''])] = Inr 1
   \<and> Delta [(''a'', [''b'', ''a'']), (''b'', [''a''])] = Inr 3"
  using degree_extremes [of "[] :: string graph"]
    degree_extremes [of "[(''a'', [''b'', ''a'']), (''b'', [''a''])]"]
  by (simp add: nodes_def node_degree_def getitem_def adjacency_def)

section \<open>Isolated nodes\<close>

text \<open>
  Claim C8.  \<^verbatim>\<open>isolated_nodes()\<close> returns, in the order of the keys, exactly the nodes whose
  adjacency list is empty and that occur in no adjacency list; a node with a self-loop is
  never returned; \<^verbatim>\<open>is_connected()\<close> holds iff that list is empty.  The keys of a dictionary
  are distinct.
\<close>

theorem isolated_nodes_exact:
  "(distinct (nodes g) \<longrightarrow> isolated_nodes g = isolated_nodes_spec g)
   \<and> (n \<in> set (adjacency g n) \<longrightarrow> n \<notin> set (isolated_nodes g))
   \<and> is_connected g = (isolated_nodes g = [])"
proof (intro conjI impI)
  assume d: "distinct (nodes g)"
  have occ: "list_ex (\<lambda>edge. n \<in> set edge) (map snd g) =
      (\<exists>m \<in> set (nodes g). n \<in> set (adjacency g m))" for n
  proof
    assume "list_ex (\<lambda>edge. n \<in> set edge) (map snd g)"
    then obtain m l where "(m, l) \<in> set g" and "n \<in> set l"
      by (auto simp: list_ex_iff)
    with d have "m \<in> set (nodes g)" and "n \<in> set (adjacency g m)"
      by (auto simp: adjacency_item) (force simp: nodes_def)
    then show "\<exists>m \<in> set (nodes g). n \<in> set (adjacency g m)" ..
  next
    assume "\<exists>m \<in> set (nodes g). n \<in> set (adjacency g m)"
    then obtain m where "n \<in> set (adjacency g m)" by blast
    then obtain l where "(m, l) \<in> set g" and "n \<in> set l"
      by (rule adjacency_member)
    then show "list_ex (\<lambda>edge. n \<in> set edge) (map snd g)"
      by (force simp: list_ex_iff)
  qed
  have "filter (\<lambda>(node, edges). length edges = 0
            \<and> \<not> list_ex (\<lambda>edge. node \<in> set edge) (map snd g)) g =
        filter ((\<lambda>n. adjacency g n = [] \<and> (\<forall>m \<in> set (nodes g). n \<notin> set (adjacency g m))) \<circ> fst) g"
    by (rule filter_cong) (auto simp: occ adjacency_item [OF d])
  then show "isolated_nodes g = isolated_nodes_spec g"
    by (simp add: isolated_nodes_def isolated_nodes_spec_def nodes_def filter_map)
next
  assume loop: "n \<in> set (adjacency g n)"
  then obtain l where "(n, l) \<in> set g" and "n \<in> set l"
    by (rule adjacency_member)
  then have "list_ex (\<lambda>edge. n \<in> set edge) (map snd g)"
    by (force simp: list_ex_iff)
  then show "n \<notin> set (isolated_nodes g)"
    by (auto simp: isolated_nodes_def)
next
  show "is_connected g = (isolated_nodes g = [])"
    by (simp add: is_connected_def)
qed

theorem isolated_nodes_exact_witness:
  "distinct (nodes [(''a'', [''b'']), (''d'', []), (''b'', [''a'']), (''c'', [''c'']), (''e'', [])])
   \<and> isolated_nodes [(''a'', [''b'']), (''d'', []), (''b'', [''a'']), (''c'', [''c'']), (''e'', [])]
       = [''d'', ''e'']
   \<and> isolated_nodes_spec [(''a'', [''b'']), (''d'', []), (''b'', [''a'']), (''c'', [''c'']), (''e'', [])]
       = [''d'', ''e'']
   \<and> ''c'' \<in> set (adjacency [(''a'', [''b'']), (''d'', []), (''b'', [''a'']), (''c'', [''c'']), (''e'', [])] ''c'')
   \<and> ''c'' \<notin> set (isolated_nodes [(''a'', [''b'']), (''d'', []), (''b'', [''a'']), (''c'', [''c'']), (''e'', [])])"
  using isolated_nodes_exact
    [of "[(''a'', [''b'']), (''d'', []), (''b'', [''a'']), (''c'', [''c'']), (''e'', [])]" "''c''"]
  by (simp add: nodes_def adjacency_def isolated_nodes_spec_def)

section \<open>Symmetry of an undirected graph\<close>

text \<open>
  Claim C3.  In an undirected graph, built from an edge list and then used through any
  sequence of calls, for all nodes \<open>A \<noteq> B\<close> the number of occurrences of \<open>B\<close> in the adjacency
  list of \<open>A\<close> equals the number of occurrences of \<open>A\<close> in the adjacency list of \<open>B\<close>; and a
  self-loop call on \<open>A\<close> adds exactly one occurrence of \<open>A\<close> to the adjacency list of \<open>A\<close>.
\<close>

theorem undirected_symmetry:
  "(A \<noteq> B \<longrightarrow>
      count_list (adjacency (fold (apply_call pop_first) calls
                     (UndirectedGraph pop_first edges)) A) B =
      count_list (adjacency (fold (apply_call pop_first) calls
                     (UndirectedGraph pop_first edges)) B) A)
   \<and> count_list (adjacency (undirected_add_edge pop_first g (A, A)) A) A =
       count_list (adjacency g A) A + 1"
proof -
  have "symmetric_adjacency (fold (apply_call pop_first) calls
          (UndirectedGraph pop_first edges))"
    by (intro symmetric_adjacency_calls symmetric_adjacency_UndirectedGraph)
  then show ?thesis
    by (simp add: symmetric_adjacency_def adjacency_undirected_add_edge)
qed

theorem undirected_symmetry_witness:
  "''a'' \<noteq> ''b''
   \<and> count_list (adjacency (fold (apply_call (\<lambda>a b. True))
         [AddEdge (''b'', ''a''), NodeDegree ''d'', AddNode ''e'', AddEdge (''a'', ''a'')]
         (UndirectedGraph (\<lambda>a b. True) [(''a'', ''b''), (''a'', ''c'')])) ''a'') ''b'' = 2
   \<and> count_list (adjacency (fold (apply_call (\<lambda>a b. True))
         [AddEdge (''b'', ''a''), NodeDegree ''d'', AddNode ''e'', AddEdge (''a'', ''a'')]
         (UndirectedGraph (\<lambda>a b. True) [(''a'', ''b''), (''a'', ''c'')])) ''b'') ''a'' = 2"
proof -
  have "count_list (adjacency (fold (apply_call (\<lambda>a b. True))
         [AddEdge (''b'', ''a''), NodeDegree ''d'', AddNode ''e'', AddEdge (''a'', ''a'')]
         (UndirectedGraph (\<lambda>a b. True) [(''a'', ''b''), (''a'', ''c'')])) ''a'') ''b'' = 2"
    by (simp add: UndirectedGraph_def adjacency_undirected_add_edge adjacency_add_node
        node_degree_state) (simp add: adjacency_def)
  then show ?thesis
    using undirected_symmetry [of "''a''" "''b''" "\<lambda>a b. True"
        "[AddEdge (''b'', ''a''), NodeDegree ''d'', AddNode ''e'', AddEdge (''a'', ''a'')]"
        "[(''a'', ''b''), (''a'', ''c'')]"]
    by simp
qed

section \<open>Termination of the search\<close>

text \<open>
  Claim C9.  \<^verbatim>\<open>depth_first_search(start, end)\<close> returns on every graph, whatever cycles,
  self-loops and parallel edges it has.  Every recursive call adds a node that is not yet in
  the path, so the nodes of a returned path are distinct, the recursion is never deeper than
  the number of different nodes in the adjacency lists, and on a graph whose adjacency
  entries are all keys it is never deeper than the number of nodes.  The graphs that the
  two classes build from an edge list are of that kind.
\<close>

theorem search_terminates:
  "depth_first_search_fuel (card (targets g)) g s e None = Some (depth_first_search g s e None)
   \<and> (endpoints_registered g \<longrightarrow>
        depth_first_search_fuel (nat (node_count g)) g s e None
          = Some (depth_first_search g s e None))
   \<and> (depth_first_search g s e None = Some p \<longrightarrow> distinct p)
   \<and> endpoints_registered (UndirectedGraph pop_first edges)
   \<and> endpoints_registered (DirectedGraph edges')"
proof (intro conjI impI)
  show "endpoints_registered (UndirectedGraph pop_first edges)"
    by (rule endpoints_registered_UndirectedGraph)
next
  show "endpoints_registered (DirectedGraph edges')"
    by (rule endpoints_registered_DirectedGraph)
next
  have "card (targets g - set ((case None of None \<Rightarrow> [] | Some p \<Rightarrow> p) @ [s])) \<le> card (targets g)"
    by (intro card_mono finite_targets) auto
  then show "depth_first_search_fuel (card (targets g)) g s e None
      = Some (depth_first_search g s e None)"
    by (intro search_within_fuel [where U = "targets g"] finite_targets) simp_all
next
  assume "endpoints_registered g"
  then have sub: "targets g \<subseteq> set (nodes g)"
    by (simp add: endpoints_registered_def)
  have "card (set (nodes g) - set ((case None of None \<Rightarrow> [] | Some p \<Rightarrow> p) @ [s]))
      \<le> card (set (nodes g))"
    by (intro card_mono) auto
  also have "\<dots> \<le> length (nodes g)"
    by (rule card_length)
  also have "\<dots> = nat (node_count g)"
    by (simp add: nodes_def node_count_def)
  finally show "depth_first_search_fuel (nat (node_count g)) g s e None
      = Some (depth_first_search g s e None)"
    using sub by (intro search_within_fuel [where U = "set (nodes g)"]) simp_all
next
  assume "depth_first_search g s e None = Some p"
  then show "distinct p"
    by (rule search_result_distinct) simp
qed

theorem search_terminates_witness:
  "endpoints_registered
     [(''a'', [''a'', ''b'', ''b'', ''c'']), (''b'', [''a'', ''a'', ''c'']), (''c'', [''b'', ''a''])]
   \<and> depth_first_search_fuel 3
        [(''a'', [''a'', ''b'', ''b'', ''c'']), (''b'', [''a'', ''a'', ''c'']), (''c'', [''b'', ''a''])]
        ''a'' ''c'' None = Some (Some [''a'', ''b'', ''c''])
   \<and> depth_first_search
        [(''a'', [''a'', ''b'', ''b'', ''c'']), (''b'', [''a'', ''a'', ''c'']), (''c'', [''b'', ''a''])]
        ''a'' ''c'' None = Some [''a'', ''b'', ''c'']
   \<and> distinct [''a'', ''b'', ''c'']"
proof -
  let ?g = "[(''a'', [''a'', ''b'', ''b'', ''c'']), (''b'', [''a'', ''a'', ''c'']),
             (''c'', [''b'', ''a''])]"
  have r: "endpoints_registered ?g"
    by (simp add: endpoints_registered_def targets_def nodes_def)
  have n: "nat (node_count ?g) = 3"
    by (simp add: node_count_def)
  have s: "depth_first_search ?g ''a'' ''c'' None = Some [''a'', ''b'', ''c'']"
    by (simp add: depth_first_search.simps nodes_def adjacency_def)
  show ?thesis
    using search_terminates [where g = ?g and s = "''a''" and e = "''c''"
        and p = "[''a'', ''b'', ''c'']" and pop_first = "\<lambda>(a :: string) b. True"
        and edges = "[]" and edges' = "[] :: (string \<times> string) list"] r n s
    by simp
qed

section \<open>The order of the endpoints of an undirected edge\<close>

text \<open>
  The claim C10 as worded (\<^verbatim>\<open>add_edge((A, B))\<close> and \<^verbatim>\<open>add_edge((B, A))\<close> give the same keys
  in the same order) fails when both nodes are new and the set built from \<open>(A, B)\<close> pops
  another element first than the set built from \<open>(B, A)\<close>.  CPython does that for elements
  whose hashes fall into the same slot of the table, the integers 0 and 8 for one:
  \<^verbatim>\<open>set((0, 8)).pop()\<close> is 0 and \<^verbatim>\<open>set((8, 0)).pop()\<close> is 8.  The node popped first is
  registered first.
\<close>

theorem add_edge_order_of_keys:
  "undirected_add_edge (\<lambda>a b. True) [] (0 :: int, 8) = [(0, [8]), (8, [0])]
   \<and> undirected_add_edge (\<lambda>a b. True) [] (8 :: int, 0) = [(8, [0]), (0, [8])]
   \<and> nodes (undirected_add_edge (\<lambda>a b. True) [] (0 :: int, 8))
       \<noteq> nodes (undirected_add_edge (\<lambda>a b. True) [] (8 :: int, 0))"
  by (simp add: undirected_add_edge_cases append_to_Nil append_to_Cons nodes_def)

text \<open>
  Claim C10, amended.  \<^verbatim>\<open>add_edge((A, B))\<close> and \<^verbatim>\<open>add_edge((B, A))\<close> give every node the
  same adjacency list and give the same set of keys.  The two mappings are identical, with
  the keys in the same order, when \<open>A\<close> or \<open>B\<close> is already a key, when \<open>A = B\<close>, or when the
  runtime pops the same element first from both sets.
\<close>

theorem add_edge_endpoint_order:
  "adjacency (undirected_add_edge pop_first g (A, B)) n
     = adjacency (undirected_add_edge pop_first g (B, A)) n
   \<and> set (nodes (undirected_add_edge pop_first g (A, B)))
     = set (nodes (undirected_add_edge pop_first g (B, A)))
   \<and> (A \<in> set (nodes g) \<or> B \<in> set (nodes g) \<or> A = B \<or> pop_first A B = (\<not> pop_first B A)
        \<longrightarrow> undirected_add_edge pop_first g (A, B) = undirected_add_edge pop_first g (B, A))"
proof (intro conjI impI)
  show "adjacency (undirected_add_edge pop_first g (A, B)) n
     = adjacency (undirected_add_edge pop_first g (B, A)) n"
    by (simp add: adjacency_undirected_add_edge)
next
  show "set (nodes (undirected_add_edge pop_first g (A, B)))
     = set (nodes (undirected_add_edge pop_first g (B, A)))"
    by (auto simp: nodes_undirected_add_edge)
next
  assume h: "A \<in> set (nodes g) \<or> B \<in> set (nodes g) \<or> A = B \<or> pop_first A B = (\<not> pop_first B A)"
  show "undirected_add_edge pop_first g (A, B) = undirected_add_edge pop_first g (B, A)"
  proof (cases "A = B \<or> pop_first A B = (\<not> pop_first B A)")
    case True
    then show ?thesis
      by (auto simp: undirected_add_edge_cases)
  next
    case False
    with h have ne: "A \<noteq> B" and key: "A \<in> set (nodes g) \<or> B \<in> set (nodes g)"
      by auto
    from append_to_commute [OF ne key, of B A]
    have "append_to (append_to g A B) B A = append_to (append_to g B A) A B" .
    with ne show ?thesis
      by (simp add: undirected_add_edge_cases)
  qed
qed

theorem add_edge_endpoint_order_witness:
  "''a'' \<in> set (nodes [(''a'', [''c'']), (''c'', [''a''])])
   \<and> adjacency (undirected_add_edge (\<lambda>a b. True) [(''a'', [''c'']), (''c'', [''a''])] (''a'', ''b'')) ''b''
       = [''a'']
   \<and> undirected_add_edge (\<lambda>a b. True) [(''a'', [''c'']), (''c'', [''a''])] (''a'', ''b'')
       = [(''a'', [''c'', ''b'']), (''c'', [''a'']), (''b'', [''a''])]
   \<and> undirected_add_edge (\<lambda>a b. True) [(''a'', [''c'']), (''c'', [''a''])] (''b'', ''a'')
       = [(''a'', [''c'', ''b'']), (''c'', [''a'']), (''b'', [''a''])]"
proof -
  let ?g = "[(''a'', [''c'']), (''c'', [''a''])]"
  have k: "''a'' \<in> set (nodes ?g)"
    by (simp add: nodes_def)
  have e: "undirected_add_edge (\<lambda>a b. True) ?g (''a'', ''b'')
      = [(''a'', [''c'', ''b'']), (''c'', [''a'']), (''b'', [''a''])]"
    by (simp add: undirected_add_edge_cases append_to_Nil append_to_Cons)
  show ?thesis
    using add_edge_endpoint_order [of "\<lambda>a b. True" ?g "''a''" "''b''" "''b''"] k e
    by (simp add: adjacency_def)
qed

end
